theory Spec2Isabelle
  imports Main "HOL-Library.Word" "HOL-Library.Sublist"
begin

section \<open>XFS project quotas of the NFS provisioner (pkg/volume/quota.go)\<close>

text \<open>
  The development embeds \<^verbatim>\<open>xfsQuotaer\<close> of \<^verbatim>\<open>pkg/volume/quota.go\<close>: the set of
  allocated project ids, the projects file, and the calls of \<^verbatim>\<open>xfs_quota\<close>.
  Strings are byte lists, project ids are 16-bit words (\<^verbatim>\<open>uint16\<close>), and the two
  mutexes are left out: every operation is modelled as one sequential step.
\<close>

subsection \<open>Decimal numbers: strconv.FormatUint and strconv.ParseUint\<close>

abbreviation NL :: char where
  "NL \<equiv> CHR 0x0A"

definition isDigit :: "char \<Rightarrow> bool" where
  "isDigit c = (c \<in> set ''0123456789'')"

definition digitChar :: "nat \<Rightarrow> char" where
  "digitChar d = ''0123456789'' ! d"

definition digitVal :: "char \<Rightarrow> nat" where
  "digitVal c = of_char c - 48"

text \<open>\<^verbatim>\<open>strconv.FormatUint(n, 10)\<close>: the decimal digits of \<open>n\<close>, no leading zero.\<close>

fun formatUint :: "nat \<Rightarrow> string" where
  "formatUint n = (if n < 10 then [digitChar n] else formatUint (n div 10) @ [digitChar (n mod 10)])"

declare formatUint.simps [simp del]

text \<open>The value of a string of decimal digits.\<close>

definition decimal :: "string \<Rightarrow> nat" where
  "decimal ds = foldl (\<lambda>n c. 10 * n + digitVal c) 0 ds"

text \<open>
  \<^verbatim>\<open>strconv.ParseUint(s, 10, 16)\<close> on a non-empty string of ASCII digits (the only
  strings the regular expressions hand to it): the value when it fits in 16 bits, and
  otherwise the largest 16-bit value together with a range error. The flag is \<open>True\<close>
  when the error is returned.
\<close>

definition parseUint16 :: "string \<Rightarrow> nat \<times> bool" where
  "parseUint16 ds = (if decimal ds \<le> 65535 then (decimal ds, False) else (65535, True))"

subsection \<open>State, environment and errors\<close>

text \<open>
  \<open>projectIds\<close> is the Go map \<^verbatim>\<open>map[uint16]bool\<close> used as a set, \<open>contents\<close> the bytes
  of the projects file. \<open>execs\<close> lists the argument vectors of the processes started,
  oldest first. \<open>setQuotaCalls\<close> is a ghost field: the arguments of every call of
  \<^verbatim>\<open>SetQuota\<close>, oldest first. \<open>clock\<close> counts the interactions with the host that can
  fail.
\<close>

record state =
  xfsPath :: string
  projectsFile :: string
  projectIds :: "16 word set"
  contents :: string
  execs :: "string list list"
  setQuotaCalls :: "(16 word \<times> string \<times> string) list"
  clock :: nat

text \<open>
  The host decides which interactions fail. Each outcome is indexed by the number of
  earlier interactions, so every pattern of failures is an environment.
  \<open>notExist d\<close> is \<^verbatim>\<open>os.IsNotExist\<close> of the error of \<^verbatim>\<open>os.Stat(d)\<close>.
\<close>

record env =
  append_fails :: "nat \<Rightarrow> bool"
  rewrite_fails :: "nat \<Rightarrow> bool"
  read_fails :: "nat \<Rightarrow> bool"
  exec_fails :: "nat \<Rightarrow> bool"
  notExist :: "string \<Rightarrow> bool"

datatype err =
    ErrIO
  | ErrNoFreeId
  | ErrAddBlock string string err
  | ErrXfsQuota
  | ErrNotAdded "16 word"
  | ErrRestoreQuota string err
  | ErrRestore string err
  | ErrValidation

definition tick :: "state \<Rightarrow> state" where
  "tick s = s\<lparr>clock := Suc (clock s)\<rparr>"

subsection \<open>Helpers that quota.go calls\<close>

text \<open>
  \<^verbatim>\<open>strings.Replace(s, old, "", -1)\<close> for a non-empty \<open>old\<close>: every occurrence of
  \<open>old\<close> is deleted, left to right, occurrences not overlapping.
\<close>

function removeText :: "string \<Rightarrow> string \<Rightarrow> string" where
  "removeText old [] = []"
| "removeText old (c # cs) =
     (if old \<noteq> [] \<and> prefix old (c # cs) then removeText old (drop (length old) (c # cs))
      else c # removeText old cs)"
  by pat_completeness auto
termination
  by (relation "measure (\<lambda>(old, s). length s)") (auto simp: neq_Nil_conv)

text \<open>
  Modelled from the spec: \<^verbatim>\<open>generateId\<close> is not in quota.go. The allocator
  "returns a tag not currently marked allocated, then marks it allocated" and "fails
  only if the tag space is exhausted"; tags range over 1..65535. The spec leaves open
  which free tag is returned: the model takes the smallest one. \<open>firstFree n i ids\<close>
  tries \<open>n\<close> tags from \<open>i\<close> upwards.
\<close>

primrec firstFree :: "nat \<Rightarrow> 16 word \<Rightarrow> 16 word set \<Rightarrow> 16 word option" where
  "firstFree 0 i ids = None"
| "firstFree (Suc n) i ids = (if i \<in> ids then firstFree n (i + 1) ids else Some i)"

definition generateId :: "state \<Rightarrow> (16 word \<times> state) option" where
  "generateId s =
     (case firstFree 65535 1 (projectIds s) of
        None \<Rightarrow> None
      | Some i \<Rightarrow> Some (i, s\<lparr>projectIds := insert i (projectIds s)\<rparr>))"

text \<open>
  Modelled from the spec: \<^verbatim>\<open>deleteId\<close> is not in quota.go. "\<^verbatim>\<open>release(id)\<close> unmarks
  it."
\<close>

definition deleteId :: "16 word \<Rightarrow> state \<Rightarrow> state" where
  "deleteId projectId s = s\<lparr>projectIds := projectIds s - {projectId}\<rparr>"

text \<open>
  Modelled from the spec: \<^verbatim>\<open>addToFile\<close> is not in quota.go. "\<^verbatim>\<open>append(record)\<close>
  appends it to the file"; blocks "are never partially written", so a failed append
  leaves the file as it was. The flag is \<open>True\<close> when an error is returned.
\<close>

definition addToFile :: "env \<Rightarrow> string \<Rightarrow> state \<Rightarrow> bool \<times> state" where
  "addToFile E toAdd s =
     (if append_fails E (clock s) then (True, tick s)
      else (False, tick (s\<lparr>contents := contents s @ toAdd\<rparr>)))"

text \<open>
  Modelled from the spec: \<^verbatim>\<open>removeFromFile\<close> is not in quota.go. "\<^verbatim>\<open>remove(block)\<close>
  deletes the exact previously-returned block text from the file", removal being
  "content-addressed (exact substring match) rather than line-indexed" and "a single
  atomic file rewrite": every occurrence of the text is deleted, and a failed removal
  leaves the file as it was.
\<close>

definition removeFromFile :: "env \<Rightarrow> string \<Rightarrow> state \<Rightarrow> bool \<times> state" where
  "removeFromFile E toRemove s =
     (if rewrite_fails E (clock s) then (True, tick s)
      else (False, tick (s\<lparr>contents := removeText toRemove (contents s)\<rparr>)))"

text \<open>
  \<^verbatim>\<open>exec.Command("xfs_quota", "-x", "-c", c, q.xfsPath).CombinedOutput()\<close>: the process
  is started (and recorded), and the host decides whether it fails.
\<close>

definition xfs_quota :: "env \<Rightarrow> string \<Rightarrow> state \<Rightarrow> bool \<times> state" where
  "xfs_quota E c s =
     (exec_fails E (clock s),
      tick (s\<lparr>execs := execs s @ [[''xfs_quota'', ''-x'', ''-c'', c, xfsPath s]]\<rparr>))"

subsection \<open>The operations of xfsQuotaer\<close>

definition blockText :: "16 word \<Rightarrow> string \<Rightarrow> string \<Rightarrow> string" where
  "blockText projectId directory bhard =
     NL # formatUint (unat projectId) @ '':'' @ directory @ '':'' @ bhard @ [NL]"

definition AddProject :: "env \<Rightarrow> string \<Rightarrow> string \<Rightarrow> state \<Rightarrow> (err + string \<times> 16 word) \<times> state" where
  "AddProject E directory bhard s =
     (case generateId s of
        None \<Rightarrow> (Inl ErrNoFreeId, s)
      | Some (projectId, s1) \<Rightarrow>
          let projectIdStr = formatUint (unat projectId);
              block = blockText projectId directory bhard;
              (failed, s2) = addToFile E block s1
          in if failed then (Inl (ErrAddBlock block (projectsFile s) ErrIO), deleteId projectId s2)
             else
               let (failed', s3) = xfs_quota E (''project -s -p '' @ directory @ '' '' @ projectIdStr) s2
               in if failed'
                  then (Inl ErrXfsQuota, snd (removeFromFile E block (deleteId projectId s3)))
                  else (Inr (block, projectId), s3))"

definition RemoveProject :: "env \<Rightarrow> string \<Rightarrow> 16 word \<Rightarrow> state \<Rightarrow> err option \<times> state" where
  "RemoveProject E block projectId s =
     (let (failed, s') = removeFromFile E block (deleteId projectId s)
      in (if failed then Some ErrIO else None, s'))"

definition SetQuota :: "env \<Rightarrow> 16 word \<Rightarrow> string \<Rightarrow> string \<Rightarrow> state \<Rightarrow> err option \<times> state" where
  "SetQuota E projectId directory bhard s0 =
     (let s = s0\<lparr>setQuotaCalls := setQuotaCalls s0 @ [(projectId, directory, bhard)]\<rparr>
      in if projectId \<notin> projectIds s then (Some (ErrNotAdded projectId), s)
         else
           let projectIdStr = formatUint (unat projectId);
               (failed, s') = xfs_quota E (''limit -p bhard='' @ bhard @ '' '' @ projectIdStr) s
           in (if failed then Some ErrXfsQuota else None, s'))"

definition UnsetQuota :: "state \<Rightarrow> err option \<times> state" where
  "UnsetQuota s = (None, s)"

subsection \<open>The regular expression of restoreQuotas\<close>

text \<open>
  \<^verbatim>\<open>regexp.MustCompile("(?m:\n^([0-9]+):(.+):(.+)$\n)")\<close> and
  \<^verbatim>\<open>re.FindAllSubmatch(read, -1)\<close>. A match starts at a newline and ends at the next
  one, since \<^verbatim>\<open>.\<close> matches every byte but the newline; after a newline \<^verbatim>\<open>^\<close> holds and
  before one \<^verbatim>\<open>$\<close> holds. The line between the two newlines is: the longest run of
  digits (non-empty), a colon, and a rest that the greedy \<^verbatim>\<open>(.+):(.+)\<close> splits at its
  last colon that leaves both parts non-empty.
\<close>

record submatch =
  m_block :: string
  m_digits :: string
  m_dir :: string
  m_bhard :: string

text \<open>\<^verbatim>\<open>(.+):(.+)\<close> on a whole string: the first group takes as much as it can.\<close>

fun greedySplit :: "string \<Rightarrow> (string \<times> string) option" where
  "greedySplit [] = None"
| "greedySplit (c # cs) =
     (case greedySplit cs of
        Some (d, b) \<Rightarrow> Some (c # d, b)
      | None \<Rightarrow>
          (case cs of
             [] \<Rightarrow> None
           | c' # b \<Rightarrow> if c' = CHR '':'' \<and> b \<noteq> [] then Some ([c], b) else None))"

text \<open>\<^verbatim>\<open>([0-9]+):(.+):(.+)\<close> on a whole line without newline.\<close>

definition matchLine :: "string \<Rightarrow> (string \<times> string \<times> string) option" where
  "matchLine l =
     (let ds = takeWhile isDigit l in
      if ds = [] then None
      else
        (case dropWhile isDigit l of
           [] \<Rightarrow> None
         | c # r \<Rightarrow>
             if c \<noteq> CHR '':'' then None
             else (case greedySplit r of None \<Rightarrow> None | Some (d, b) \<Rightarrow> Some (ds, d, b))))"

text \<open>
  All matches, leftmost first, not overlapping: after a match the search goes on
  behind its closing newline.
\<close>

function findAllSubmatch :: "string \<Rightarrow> submatch list" where
  "findAllSubmatch [] = []"
| "findAllSubmatch (c # cs) =
     (if c \<noteq> NL then findAllSubmatch cs
      else if dropWhile (\<lambda>x. x \<noteq> NL) cs = [] then findAllSubmatch cs
      else
        (case matchLine (takeWhile (\<lambda>x. x \<noteq> NL) cs) of
           None \<Rightarrow> findAllSubmatch cs
         | Some (ds, d, b) \<Rightarrow>
             \<lparr>m_block = NL # takeWhile (\<lambda>x. x \<noteq> NL) cs @ [NL],
              m_digits = ds, m_dir = d, m_bhard = b\<rparr>
             # findAllSubmatch (drop (Suc (length (takeWhile (\<lambda>x. x \<noteq> NL) cs))) cs)))"
  by pat_completeness auto
termination
  by (relation "measure length") auto

subsection \<open>The startup scan\<close>

text \<open>The lines of a text: the pieces between its newlines.\<close>

fun splitLines :: "string \<Rightarrow> string list" where
  "splitLines [] = [[]]"
| "splitLines (c # cs) =
     (if c = NL then [] # splitLines cs
      else (case splitLines cs of [] \<Rightarrow> [[c]] | l # ls \<Rightarrow> (c # l) # ls))"

text \<open>
  \<^verbatim>\<open>regexp.MustCompile("(?m:^([0-9]+):/.+$)")\<close> on one line: the digits when the line
  is digits, \<^verbatim>\<open>:/\<close> and at least one more byte.
\<close>

definition scanLine :: "string \<Rightarrow> string option" where
  "scanLine l =
     (let ds = takeWhile isDigit l; r = dropWhile isDigit l in
      if ds \<noteq> [] \<and> prefix '':/'' r \<and> 2 < length r then Some ds else None)"

text \<open>
  Modelled from the spec: \<^verbatim>\<open>getExistingIds\<close> is not in quota.go. "\<^verbatim>\<open>scan()\<close> performs a
  best-effort read of the file at startup, matching only lines of the form
  \<^verbatim>\<open>id:<anything>\<close> to recover previously-known tags". The lines are those the regular
  expression of \<^verbatim>\<open>newXfsQuotaer\<close> matches; digits that are no 16-bit number recover no
  tag; when the file cannot be read no tag is recovered and an error is returned.
\<close>

definition scanIds :: "string \<Rightarrow> 16 word set" where
  "scanIds f =
     set (map (\<lambda>ds. of_nat (fst (parseUint16 ds)))
            (filter (\<lambda>ds. \<not> snd (parseUint16 ds)) (List.map_filter scanLine (splitLines f))))"

definition getExistingIds :: "env \<Rightarrow> nat \<Rightarrow> string \<Rightarrow> 16 word set \<times> bool" where
  "getExistingIds E n f = (if read_fails E n then ({}, True) else (scanIds f, False))"

subsection \<open>Restoring the quotas and constructing the quotaer\<close>

text \<open>
  The loop of \<^verbatim>\<open>restoreQuotas\<close> over the matches. The error of \<^verbatim>\<open>strconv.ParseUint\<close>
  and the error of \<^verbatim>\<open>RemoveProject\<close> are dropped, as in the source.
\<close>

definition tagOf :: "submatch \<Rightarrow> 16 word" where
  "tagOf m = of_nat (fst (parseUint16 (m_digits m)))"

fun restoreLoop :: "env \<Rightarrow> submatch list \<Rightarrow> state \<Rightarrow> err option \<times> state" where
  "restoreLoop E [] s = (None, s)"
| "restoreLoop E (m # ms) s =
     (let projectId = tagOf m; directory = m_dir m; bhard = m_bhard m in
      if notExist E directory
      then restoreLoop E ms (snd (RemoveProject E (m_block m) projectId s))
      else
        (case SetQuota E projectId directory bhard s of
           (Some e, s') \<Rightarrow> (Some (ErrRestoreQuota directory e), s')
         | (None, s') \<Rightarrow> restoreLoop E ms s'))"

text \<open>The arguments with which the loop calls \<^verbatim>\<open>SetQuota\<close> for a match.\<close>

definition callOf :: "submatch \<Rightarrow> 16 word \<times> string \<times> string" where
  "callOf m = (tagOf m, m_dir m, m_bhard m)"

definition restoreQuotas :: "env \<Rightarrow> state \<Rightarrow> err option \<times> state" where
  "restoreQuotas E s =
     (if read_fails E (clock s) then (Some ErrIO, tick s)
      else restoreLoop E (findAllSubmatch (contents s)) (tick s))"

text \<open>\<^verbatim>\<open>strings.Contains(s, sub)\<close>.\<close>

fun containsStr :: "string \<Rightarrow> string \<Rightarrow> bool" where
  "containsStr sub [] = (sub = [])"
| "containsStr sub (c # cs) = (prefix sub (c # cs) \<or> containsStr sub cs)"

text \<open>
  What \<^verbatim>\<open>newXfsQuotaer\<close> learns from the host before it looks at the projects file:
  whether the path exists, the answer of \<^verbatim>\<open>isXfs\<close>, the mount options of the entry that
  \<^verbatim>\<open>getMountEntry\<close> finds, whether \<^verbatim>\<open>xfs_quota\<close> is on the path, and whether a missing
  projects file can be created.
\<close>

record probe =
  pathNotExist :: bool
  isXfsError :: bool
  isXfsAnswer :: bool
  vfsOpts :: "string option"
  lookPathFails :: bool
  createFails :: bool

definition initState :: "string \<Rightarrow> 16 word set \<Rightarrow> string \<Rightarrow> nat \<Rightarrow> state" where
  "initState path ids f n = \<lparr>xfsPath = path, projectsFile = path @ ''/projects'',
     projectIds = ids, contents = f, execs = [], setQuotaCalls = [], clock = n\<rparr>"

text \<open>
  The state in which \<^verbatim>\<open>newXfsQuotaer\<close> calls \<^verbatim>\<open>restoreQuotas\<close>: a missing projects file
  (\<open>None\<close>) is created empty, an existing one is scanned for ids, and an error of the
  scan is only logged.
\<close>

definition seedState :: "env \<Rightarrow> string \<Rightarrow> string option \<Rightarrow> state" where
  "seedState E path file =
     (case file of
        None \<Rightarrow> initState path {} [] 0
      | Some f \<Rightarrow> initState path (fst (getExistingIds E 0 f)) f 1)"

definition newXfsQuotaer :: "env \<Rightarrow> probe \<Rightarrow> string \<Rightarrow> string option \<Rightarrow> err + state" where
  "newXfsQuotaer E P path file =
     (if pathNotExist P then Inl ErrValidation
      else if isXfsError P then Inl ErrValidation
      else if \<not> isXfsAnswer P then Inl ErrValidation
      else
        (case vfsOpts P of
           None \<Rightarrow> Inl ErrValidation
         | Some opts \<Rightarrow>
             if \<not> containsStr ''pquota'' opts \<and> \<not> containsStr ''prjquota'' opts
             then Inl ErrValidation
             else if lookPathFails P then Inl ErrValidation
             else if file = None \<and> createFails P then Inl ErrIO
             else
               (case restoreQuotas E (seedState E path file) of
                  (Some e, s) \<Rightarrow> Inl (ErrRestore (path @ ''/projects'') e)
                | (None, s) \<Rightarrow> Inr s)))"

subsection \<open>Concrete environments and states\<close>

text \<open>The host on which nothing fails and every directory exists.\<close>

definition quietEnv :: env where
  "quietEnv = \<lparr>append_fails = (\<lambda>n. False), rewrite_fails = (\<lambda>n. False),
     read_fails = (\<lambda>n. False), exec_fails = (\<lambda>n. False), notExist = (\<lambda>d. False)\<rparr>"

text \<open>A quotaer on \<^verbatim>\<open>/export\<close> with the given allocated ids and projects file.\<close>

definition mkState :: "16 word set \<Rightarrow> string \<Rightarrow> state" where
  "mkState ids f = \<lparr>xfsPath = ''/export'', projectsFile = ''/export/projects'',
     projectIds = ids, contents = f, execs = [], setQuotaCalls = [], clock = 0\<rparr>"

text \<open>A host that passes every check of \<^verbatim>\<open>newXfsQuotaer\<close>.\<close>

definition goodProbe :: probe where
  "goodProbe = \<lparr>pathNotExist = False, isXfsError = False, isXfsAnswer = True,
     vfsOpts = Some ''rw,prjquota'', lookPathFails = False, createFails = False\<rparr>"

subsection \<open>Sequences of operations\<close>

text \<open>
  An operation of a caller: \<^verbatim>\<open>AddProject(d, b)\<close>; \<^verbatim>\<open>RemoveProject\<close> with the id \<open>i\<close> and
  the token that \<^verbatim>\<open>AddProject(d, b)\<close> returned with that id; and \<^verbatim>\<open>restoreQuotas\<close>.
\<close>

datatype op = Add string string | Remove "16 word" string string | Restore

fun step :: "env \<Rightarrow> op \<Rightarrow> state \<Rightarrow> state" where
  "step E (Add d b) s = snd (AddProject E d b s)"
| "step E (Remove i d b) s = snd (RemoveProject E (blockText i d b) i s)"
| "step E Restore s = snd (restoreQuotas E s)"

fun run :: "env \<Rightarrow> op list \<Rightarrow> state \<Rightarrow> state" where
  "run E [] s = s"
| "run E (x # xs) s = run E xs (step E x s)"

text \<open>
  The calls a well-behaved caller makes: directories and limits have no newline, and
  a block is removed only while its text is in the file.
\<close>

fun legalOp :: "op \<Rightarrow> state \<Rightarrow> bool" where
  "legalOp (Add d b) s = (NL \<notin> set d \<and> NL \<notin> set b)"
| "legalOp (Remove i d b) s =
     (NL \<notin> set d \<and> NL \<notin> set b \<and> containsStr (blockText i d b) (contents s))"
| "legalOp Restore s = True"

fun legal :: "env \<Rightarrow> op list \<Rightarrow> state \<Rightarrow> bool" where
  "legal E [] s = True"
| "legal E (x # xs) s = (legalOp x s \<and> legal E xs (step E x s))"

text \<open>
  A projects file made of blocks only: \<open>es\<close> lists the id, directory and limit of each
  block, the ids are pairwise different and allocated, and no field has a newline.
\<close>

fun render :: "16 word \<times> string \<times> string \<Rightarrow> string" where
  "render (i, d, b) = blockText i d b"

definition consistent :: "(16 word \<times> string \<times> string) list \<Rightarrow> state \<Rightarrow> bool" where
  "consistent es s =
     (contents s = concat (map render es) \<and> fst ` set es \<subseteq> projectIds s \<and>
      distinct (map fst es) \<and> (\<forall>(i, d, b) \<in> set es. NL \<notin> set d \<and> NL \<notin> set b))"

text \<open>The line of a block, between its two newlines.\<close>

definition entryLine :: "16 word \<times> string \<times> string \<Rightarrow> string" where
  "entryLine e = formatUint (unat (fst e)) @ '':'' @ fst (snd e) @ '':'' @ snd (snd e)"

text \<open>The text after a block of the file: nothing, or a newline first.\<close>

definition blockStart :: "string \<Rightarrow> bool" where
  "blockStart r = (r = [] \<or> hd r = NL)"

text \<open>No field of an entry has a newline.\<close>

definition cleanEntries :: "(16 word \<times> string \<times> string) list \<Rightarrow> bool" where
  "cleanEntries es = (\<forall>(i, d, b) \<in> set es. NL \<notin> set d \<and> NL \<notin> set b)"

text \<open>
  A match of the restore is tracked by the entries \<open>es\<close> when its text is the block of
  its own id, and either that block is one of the entries or no entry has that id.
\<close>

definition tracked :: "submatch \<Rightarrow> (16 word \<times> string \<times> string) list \<Rightarrow> bool" where
  "tracked m es =
     (\<exists>d b. NL \<notin> set d \<and> NL \<notin> set b \<and> m_block m = blockText (tagOf m) d b \<and>
        ((\<exists>e \<in> set es. entryLine e = entryLine (tagOf m, d, b)) \<or> tagOf m \<notin> fst ` set es))"



section \<open>Properties\<close>

subsection \<open>Evaluation helpers\<close>

lemma firstFree_numeral:
  "firstFree (numeral k) i ids =
     (if i \<in> ids then firstFree (pred_numeral k) (i + 1) ids else Some i)"
  by (simp add: numeral_eq_Suc)

lemmas eval_defs =
  quietEnv_def mkState_def tick_def addToFile_def removeFromFile_def xfs_quota_def
  deleteId_def generateId_def firstFree_numeral blockText_def formatUint.simps digitChar_def
  Let_def

subsection \<open>Decimal rendering and parsing\<close>

lemma lt10_cases: "d < 10 \<Longrightarrow> d \<in> {0, 1, 2, 3, 4, 5, 6, 7, 8, (9::nat)}"
  by auto

lemma digitVal_digitChar: "d < 10 \<Longrightarrow> digitVal (digitChar d) = d"
  by (drule lt10_cases) (auto simp: digitChar_def digitVal_def)

lemma isDigit_digitChar: "d < 10 \<Longrightarrow> isDigit (digitChar d)"
  by (drule lt10_cases) (auto simp: digitChar_def isDigit_def)

lemma formatUint_not_Nil: "formatUint n \<noteq> []"
  by (subst formatUint.simps) simp

lemma formatUint_digits: "\<forall>c \<in> set (formatUint n). isDigit c"
proof (induction n rule: formatUint.induct)
  case (1 n)
  show ?case
  proof (cases "n < 10")
    case True
    then show ?thesis by (subst formatUint.simps) (simp add: isDigit_digitChar)
  next
    case False
    then show ?thesis using 1 by (subst formatUint.simps) (simp add: isDigit_digitChar)
  qed
qed

lemma decimal_snoc: "decimal (ds @ [c]) = 10 * decimal ds + digitVal c"
  by (simp add: decimal_def)

lemma decimal_formatUint: "decimal (formatUint n) = n"
proof (induction n rule: formatUint.induct)
  case (1 n)
  show ?case
  proof (cases "n < 10")
    case True
    then show ?thesis by (subst formatUint.simps) (simp add: decimal_def digitVal_digitChar)
  next
    case False
    then have "decimal (formatUint (n div 10)) = n div 10" using 1 by simp
    with False show ?thesis
      by (subst formatUint.simps) (simp add: decimal_snoc digitVal_digitChar)
  qed
qed

lemma colon_not_digit: "\<not> isDigit (CHR '':'')"
  by (simp add: isDigit_def)

lemma greedySplit_no_colon: "CHR '':'' \<notin> set b \<Longrightarrow> greedySplit b = None"
  by (induction b) (auto split: list.splits option.splits)

lemma greedySplit_last_colon:
  "d \<noteq> [] \<Longrightarrow> b \<noteq> [] \<Longrightarrow> CHR '':'' \<notin> set b \<Longrightarrow> greedySplit (d @ CHR '':'' # b) = Some (d, b)"
proof (induction d)
  case Nil
  then show ?case by simp
next
  case (Cons c d)
  show ?case
  proof (cases d)
    case Nil
    have "greedySplit b = None" using Cons.prems by (simp add: greedySplit_no_colon)
    then have "greedySplit (CHR '':'' # b) = None"
      using Cons.prems by (auto split: list.splits)
    with Nil Cons.prems show ?thesis by simp
  next
    case (Cons c' d')
    then have "greedySplit (d @ CHR '':'' # b) = Some (d, b)"
      using Cons.IH Cons.prems by simp
    then show ?thesis by simp
  qed
qed

lemma matchLine_block:
  assumes "d \<noteq> []" "b \<noteq> []" "CHR '':'' \<notin> set b"
  shows "matchLine (formatUint n @ '':'' @ d @ '':'' @ b) = Some (formatUint n, d, b)"
  using assms formatUint_digits [of n] formatUint_not_Nil [of n]
  by (simp add: matchLine_def colon_not_digit greedySplit_last_colon Let_def)

lemma takeWhile_line: "NL \<notin> set l \<Longrightarrow> takeWhile (\<lambda>x. x \<noteq> NL) (l @ NL # r) = l"
  by (induction l) auto

lemma dropWhile_line: "NL \<notin> set l \<Longrightarrow> dropWhile (\<lambda>x. x \<noteq> NL) (l @ NL # r) = NL # r"
  by (induction l) auto

lemma NL_not_digit: "isDigit c \<Longrightarrow> c \<noteq> NL"
  by (auto simp: isDigit_def)

lemma formatUint_no_NL: "NL \<notin> set (formatUint n)"
  using formatUint_digits [of n] NL_not_digit by blast

lemma findAll_line_block:
  assumes "NL \<notin> set l" "matchLine l = Some (ds, d, b)"
  shows "findAllSubmatch (NL # l @ NL # r) =
         \<lparr>m_block = NL # l @ [NL], m_digits = ds, m_dir = d, m_bhard = b\<rparr> # findAllSubmatch r"
  using assms by (simp add: takeWhile_line dropWhile_line)

lemmas parse_defs =
  isDigit_def matchLine_def decimal_def digitVal_def parseUint16_def tagOf_def
  scanIds_def scanLine_def List.map_filter_def

subsection \<open>Writing a block and reading it back\<close>

text \<open>
  C7 (as amended). For every project id, every non-empty directory without newline
  and every non-empty limit with neither newline nor colon (every decimal limit is
  one), the block that \<^verbatim>\<open>AddProject\<close> writes is matched by the regular expression of
  \<^verbatim>\<open>restoreQuotas\<close> exactly once, as a whole, and the three groups give back the id,
  the directory and the limit.
\<close>

theorem block_roundtrip:
  assumes "directory \<noteq> []" "NL \<notin> set directory"
    and "bhard \<noteq> []" "NL \<notin> set bhard" "CHR '':'' \<notin> set bhard"
  shows "findAllSubmatch (blockText projectId directory bhard) =
           [\<lparr>m_block = blockText projectId directory bhard,
             m_digits = formatUint (unat projectId), m_dir = directory, m_bhard = bhard\<rparr>] \<and>
         tagOf \<lparr>m_block = blockText projectId directory bhard,
             m_digits = formatUint (unat projectId), m_dir = directory, m_bhard = bhard\<rparr> = projectId"
proof -
  let ?l = "formatUint (unat projectId) @ '':'' @ directory @ '':'' @ bhard"
  have nl: "NL \<notin> set ?l" using assms formatUint_no_NL by simp
  have ml: "matchLine ?l = Some (formatUint (unat projectId), directory, bhard)"
    using assms by (intro matchLine_block) auto
  have "findAllSubmatch (NL # ?l @ NL # []) =
     \<lparr>m_block = NL # ?l @ [NL], m_digits = formatUint (unat projectId), m_dir = directory, m_bhard = bhard\<rparr> # findAllSubmatch []"
    by (rule findAll_line_block [OF nl ml])
  moreover have "unat projectId \<le> 65535" using unsigned_less [of projectId, where 'a=nat] by simp
  ultimately show ?thesis
    by (simp add: blockText_def tagOf_def parseUint16_def decimal_formatUint)
qed


theorem block_roundtrip_witness:
  "''/data/vol1'' \<noteq> [] \<and> NL \<notin> set ''/data/vol1'' \<and> ''5'' \<noteq> [] \<and> NL \<notin> set ''5'' \<and>
   CHR '':'' \<notin> set ''5'' \<and>
   findAllSubmatch (NL # ''7:/data/vol1:5'' @ [NL]) =
     [\<lparr>m_block = NL # ''7:/data/vol1:5'' @ [NL], m_digits = ''7'', m_dir = ''/data/vol1'',
       m_bhard = ''5''\<rparr>] \<and>
   tagOf \<lparr>m_block = NL # ''7:/data/vol1:5'' @ [NL], m_digits = ''7'', m_dir = ''/data/vol1'',
       m_bhard = ''5''\<rparr> = 7"
  using block_roundtrip [of "''/data/vol1''" "''5''" 7]
  by (simp add: eval_defs)

text \<open>
  The empty directory has no newline, but its block \<^verbatim>\<open>\n1::5\n\<close> is not matched: the
  group \<^verbatim>\<open>(.+)\<close> of the directory needs one byte at least.
\<close>

theorem block_roundtrip_counterexample:
  "NL \<notin> set ([] :: string) \<and> findAllSubmatch (blockText 1 [] ''5'') = []"
  by (simp add: eval_defs parse_defs)

subsection \<open>Ids that do not fit in 16 bits\<close>

text \<open>
  C9. When the digits of a matched record denote a number above 65535, the range
  error of \<^verbatim>\<open>ParseUint\<close> is raised and dropped, the id is 65535, and the record is
  processed like any other: \<^verbatim>\<open>RemoveProject\<close> or \<^verbatim>\<open>SetQuota\<close> is called with 65535.
\<close>

theorem restore_tag_saturates:
  assumes "65535 < decimal (m_digits m)"
  shows "snd (parseUint16 (m_digits m)) \<and> tagOf m = 65535 \<and>
         restoreLoop E (m # ms) s =
           (if notExist E (m_dir m)
            then restoreLoop E ms (snd (RemoveProject E (m_block m) 65535 s))
            else (case SetQuota E 65535 (m_dir m) (m_bhard m) s of
                    (Some e, s') \<Rightarrow> (Some (ErrRestoreQuota (m_dir m) e), s')
                  | (None, s') \<Rightarrow> restoreLoop E ms s'))"
  using assms by (simp add: parseUint16_def tagOf_def Let_def)

theorem restore_tag_saturates_witness:
  "findAllSubmatch (NL # ''99999:/data/vol1:5Gi'' @ [NL]) =
     [\<lparr>m_block = NL # ''99999:/data/vol1:5Gi'' @ [NL], m_digits = ''99999'',
       m_dir = ''/data/vol1'', m_bhard = ''5Gi''\<rparr>] \<and>
   65535 < decimal (m_digits \<lparr>m_block = NL # ''99999:/data/vol1:5Gi'' @ [NL], m_digits = ''99999'',
       m_dir = ''/data/vol1'', m_bhard = ''5Gi''\<rparr>) \<and>
   tagOf \<lparr>m_block = NL # ''99999:/data/vol1:5Gi'' @ [NL], m_digits = ''99999'',
       m_dir = ''/data/vol1'', m_bhard = ''5Gi''\<rparr> = 65535 \<and>
   setQuotaCalls (snd (restoreLoop quietEnv
       [\<lparr>m_block = NL # ''99999:/data/vol1:5Gi'' @ [NL], m_digits = ''99999'',
         m_dir = ''/data/vol1'', m_bhard = ''5Gi''\<rparr>]
       (mkState {65535} (NL # ''99999:/data/vol1:5Gi'' @ [NL])))) =
     [(65535, ''/data/vol1'', ''5Gi'')]"
  using restore_tag_saturates
      [of "\<lparr>m_block = NL # ''99999:/data/vol1:5Gi'' @ [NL], m_digits = ''99999'',
            m_dir = ''/data/vol1'', m_bhard = ''5Gi''\<rparr>" quietEnv "[]"
          "mkState {65535} (NL # ''99999:/data/vol1:5Gi'' @ [NL])"]
  by (simp add: eval_defs parse_defs SetQuota_def)

subsection \<open>AddProject\<close>

lemma firstFree_fresh: "firstFree n j ids = Some i \<Longrightarrow> i \<notin> ids"
  by (induction n arbitrary: j) (auto split: if_splits)

lemma generateId_Some:
  "generateId s = Some (i, s1) \<Longrightarrow> i \<notin> projectIds s \<and> s1 = s\<lparr>projectIds := insert i (projectIds s)\<rparr>"
  by (auto simp: generateId_def split: option.splits dest: firstFree_fresh)

lemma removeText_self: "b \<noteq> [] \<Longrightarrow> removeText b b = []"
  by (cases b) simp_all

lemma removeText_append_unique:
  "b \<noteq> [] \<Longrightarrow> \<not> containsStr b (f @ butlast b) \<Longrightarrow> removeText b (f @ b) = f"
proof (induction f)
  case Nil
  then show ?case by (simp add: removeText_self)
next
  case (Cons c f)
  from Cons.prems have np: "\<not> prefix b (c # f @ butlast b)" and nc: "\<not> containsStr b (f @ butlast b)"
    by simp_all
  have "c # f @ b = (c # f @ butlast b) @ [last b]" using Cons.prems(1) by simp
  moreover have "b \<noteq> (c # f @ butlast b) @ [last b]"
  proof
    assume "b = (c # f @ butlast b) @ [last b]"
    then have "length b = length ((c # f @ butlast b) @ [last b])" by simp
    then show False using Cons.prems(1) by simp
  qed
  ultimately have "\<not> prefix b (c # f @ b)" using np by (metis prefix_snoc)
  then have "removeText b (c # f @ b) = c # removeText b (f @ b)" by simp
  then show ?case using Cons.IH [OF Cons.prems(1) nc] by simp
qed

lemma blockText_not_Nil: "blockText i d b \<noteq> []"
  by (simp add: blockText_def)




subsection \<open>AddProject followed by RemoveProject\<close>

text \<open>
  C2 (as amended). When \<^verbatim>\<open>AddProject\<close> succeeds, the token it returns is the text of
  the block it appended. When \<^verbatim>\<open>RemoveProject\<close> with that token and id succeeds next,
  and the text of the block occurs in the appended file only as its end, the file is
  byte for byte the one before \<^verbatim>\<open>AddProject\<close>, and so is the allocated set.
\<close>

theorem AddProject_RemoveProject_roundtrip:
  assumes "AddProject E directory bhard s = (Inr (token, projectId), s1)"
    and "RemoveProject E token projectId s1 = (None, s2)"
    and "\<not> containsStr token (butlast (contents s @ token))"
  shows "token = blockText projectId directory bhard \<and> contents s1 = contents s @ token \<and>
         contents s2 = contents s \<and> projectIds s2 = projectIds s"
proof -
  obtain i s0 where g: "generateId s = Some (i, s0)"
    using assms(1) by (auto simp: AddProject_def split: option.splits)
  then have fresh: "i \<notin> projectIds s" and s0: "s0 = s\<lparr>projectIds := insert i (projectIds s)\<rparr>"
    by (auto dest: generateId_Some)
  from assms(1) g have tk: "token = blockText i directory bhard" and pid: "projectId = i"
    and c1: "contents s1 = contents s @ token" and i1: "projectIds s1 = insert i (projectIds s)"
    by (auto simp: AddProject_def s0 addToFile_def xfs_quota_def tick_def Let_def split: if_splits)
  have "removeText token (contents s @ token) = contents s"
    using removeText_append_unique [of token "contents s"] assms(3) tk
    by (simp add: blockText_not_Nil butlast_append)
  with assms(2) c1 i1 fresh have "contents s2 = contents s \<and> projectIds s2 = projectIds s"
    by (auto simp: RemoveProject_def removeFromFile_def deleteId_def tick_def pid Let_def split: if_splits)
  with tk pid c1 show ?thesis by simp
qed

theorem AddProject_RemoveProject_roundtrip_witness:
  "fst (AddProject quietEnv ''/b'' ''2'' (mkState {1} (NL # ''1:/a:1'' @ [NL]))) =
     Inr (NL # ''2:/b:2'' @ [NL], 2) \<and>
   fst (RemoveProject quietEnv (NL # ''2:/b:2'' @ [NL]) 2
          (snd (AddProject quietEnv ''/b'' ''2'' (mkState {1} (NL # ''1:/a:1'' @ [NL]))))) = None \<and>
   \<not> containsStr (NL # ''2:/b:2'' @ [NL])
       (butlast (contents (mkState {1} (NL # ''1:/a:1'' @ [NL])) @ NL # ''2:/b:2'' @ [NL])) \<and>
   contents (snd (RemoveProject quietEnv (NL # ''2:/b:2'' @ [NL]) 2
          (snd (AddProject quietEnv ''/b'' ''2'' (mkState {1} (NL # ''1:/a:1'' @ [NL])))))) =
     NL # ''1:/a:1'' @ [NL]"
  using AddProject_RemoveProject_roundtrip
      [of quietEnv "''/b''" "''2''" "mkState {1} (NL # ''1:/a:1'' @ [NL])"
          "NL # ''2:/b:2'' @ [NL]" 2
          "snd (AddProject quietEnv ''/b'' ''2'' (mkState {1} (NL # ''1:/a:1'' @ [NL])))"
          "snd (RemoveProject quietEnv (NL # ''2:/b:2'' @ [NL]) 2
             (snd (AddProject quietEnv ''/b'' ''2'' (mkState {1} (NL # ''1:/a:1'' @ [NL])))))"]
  by (simp add: eval_defs AddProject_def RemoveProject_def)

text \<open>
  The file \<^verbatim>\<open>\n1:/d:5\<close> has no final newline and id 1 is free. \<^verbatim>\<open>AddProject\<close> appends
  \<^verbatim>\<open>\n1:/d:5\n\<close>, and the text of that block now also starts at the first byte of the
  file. Both calls succeed; the removal takes the first occurrence, and the file that
  is left, \<^verbatim>\<open>1:/d:5\n\<close>, is not the file before the call.
\<close>

theorem AddProject_RemoveProject_roundtrip_counterexample:
  "fst (AddProject quietEnv ''/d'' ''5'' (mkState {} (NL # ''1:/d:5''))) =
     Inr (NL # ''1:/d:5'' @ [NL], 1) \<and>
   fst (RemoveProject quietEnv (NL # ''1:/d:5'' @ [NL]) 1
          (snd (AddProject quietEnv ''/d'' ''5'' (mkState {} (NL # ''1:/d:5''))))) = None \<and>
   contents (snd (RemoveProject quietEnv (NL # ''1:/d:5'' @ [NL]) 1
          (snd (AddProject quietEnv ''/d'' ''5'' (mkState {} (NL # ''1:/d:5'')))))) =
     ''1:/d:5'' @ [NL] \<and>
   contents (mkState {} (NL # ''1:/d:5'')) = NL # ''1:/d:5''"
  by (simp add: eval_defs AddProject_def RemoveProject_def)

text \<open>
  That state is the one \<^verbatim>\<open>newXfsQuotaer\<close> constructs on this file when the startup scan
  cannot read it (the error is only logged) and \<^verbatim>\<open>restoreQuotas\<close> can.
\<close>

lemma unterminated_file_state_constructed:
  "newXfsQuotaer (quietEnv\<lparr>read_fails := (\<lambda>n. n = 0)\<rparr>) goodProbe ''/export''
     (Some (NL # ''1:/d:5'')) = Inr ((mkState {} (NL # ''1:/d:5''))\<lparr>clock := 2\<rparr>)"
  by (simp add: eval_defs parse_defs newXfsQuotaer_def goodProbe_def seedState_def
      getExistingIds_def initState_def restoreQuotas_def)

subsection \<open>SetQuota\<close>

text \<open>
  C6. \<^verbatim>\<open>SetQuota\<close> on an id that is not allocated returns the error "project with id
  ... has not been added" at once: no process is started, and the host is not touched.
  On an allocated id it starts exactly one process,
  \<^verbatim>\<open>xfs_quota -x -c "limit -p bhard=<bhard> <id>" <xfsPath>\<close>.
\<close>

theorem SetQuota_checks_allocation:
  "(projectId \<notin> projectIds s \<longrightarrow>
      fst (SetQuota E projectId directory bhard s) = Some (ErrNotAdded projectId) \<and>
      execs (snd (SetQuota E projectId directory bhard s)) = execs s \<and>
      clock (snd (SetQuota E projectId directory bhard s)) = clock s \<and>
      contents (snd (SetQuota E projectId directory bhard s)) = contents s \<and>
      projectIds (snd (SetQuota E projectId directory bhard s)) = projectIds s) \<and>
   (projectId \<in> projectIds s \<longrightarrow>
      execs (snd (SetQuota E projectId directory bhard s)) =
        execs s @ [[''xfs_quota'', ''-x'', ''-c'',
                    ''limit -p bhard='' @ bhard @ '' '' @ formatUint (unat projectId), xfsPath s]] \<and>
      fst (SetQuota E projectId directory bhard s) =
        (if exec_fails E (clock s) then Some ErrXfsQuota else None))"
  by (simp add: SetQuota_def xfs_quota_def tick_def Let_def)

theorem SetQuota_checks_allocation_witness:
  "(7::16 word) \<notin> projectIds (mkState {} []) \<and>
   fst (SetQuota quietEnv 7 ''/data/vol1'' ''5Gi'' (mkState {} [])) = Some (ErrNotAdded 7) \<and>
   execs (snd (SetQuota quietEnv 7 ''/data/vol1'' ''5Gi'' (mkState {} []))) = [] \<and>
   (7::16 word) \<in> projectIds (mkState {7} []) \<and>
   execs (snd (SetQuota quietEnv 7 ''/data/vol1'' ''5Gi'' (mkState {7} []))) =
     [[''xfs_quota'', ''-x'', ''-c'', ''limit -p bhard=5Gi 7'', ''/export'']] \<and>
   fst (SetQuota quietEnv 7 ''/data/vol1'' ''5Gi'' (mkState {7} [])) = None"
  using SetQuota_checks_allocation [of 7 "mkState {} []" quietEnv "''/data/vol1''" "''5Gi''"]
    SetQuota_checks_allocation [of 7 "mkState {7} []" quietEnv "''/data/vol1''" "''5Gi''"]
  by (simp add: eval_defs)

subsection \<open>RemoveProject\<close>

text \<open>
  C10. \<^verbatim>\<open>RemoveProject\<close> deletes the id from the allocated set first, whatever happens
  next. When the removal of the block from the projects file fails, the error is
  returned, the file is as before, and the id stays released: nothing registers it
  again.
\<close>

theorem RemoveProject_releases_before_removal:
  "projectIds (snd (RemoveProject E block projectId s)) = projectIds s - {projectId} \<and>
   (rewrite_fails E (clock s) \<longrightarrow>
      fst (RemoveProject E block projectId s) = Some ErrIO \<and>
      contents (snd (RemoveProject E block projectId s)) = contents s \<and>
      projectId \<notin> projectIds (snd (RemoveProject E block projectId s))) \<and>
   (\<not> rewrite_fails E (clock s) \<longrightarrow>
      fst (RemoveProject E block projectId s) = None \<and>
      contents (snd (RemoveProject E block projectId s)) = removeText block (contents s))"
  by (simp add: RemoveProject_def removeFromFile_def deleteId_def tick_def Let_def)

theorem RemoveProject_releases_before_removal_witness:
  "rewrite_fails (quietEnv\<lparr>rewrite_fails := (\<lambda>n. True)\<rparr>) (clock (mkState {7} (blockText 7 ''/data/vol1'' ''5Gi''))) \<and>
   fst (RemoveProject (quietEnv\<lparr>rewrite_fails := (\<lambda>n. True)\<rparr>) (blockText 7 ''/data/vol1'' ''5Gi'') 7
          (mkState {7} (blockText 7 ''/data/vol1'' ''5Gi''))) = Some ErrIO \<and>
   contents (snd (RemoveProject (quietEnv\<lparr>rewrite_fails := (\<lambda>n. True)\<rparr>) (blockText 7 ''/data/vol1'' ''5Gi'') 7
          (mkState {7} (blockText 7 ''/data/vol1'' ''5Gi'')))) = NL # ''7:/data/vol1:5Gi'' @ [NL] \<and>
   projectIds (snd (RemoveProject (quietEnv\<lparr>rewrite_fails := (\<lambda>n. True)\<rparr>) (blockText 7 ''/data/vol1'' ''5Gi'') 7
          (mkState {7} (blockText 7 ''/data/vol1'' ''5Gi'')))) = {} \<and>
   \<not> rewrite_fails quietEnv (clock (mkState {7} (blockText 7 ''/data/vol1'' ''5Gi''))) \<and>
   contents (snd (RemoveProject quietEnv (blockText 7 ''/data/vol1'' ''5Gi'') 7
          (mkState {7} (blockText 7 ''/data/vol1'' ''5Gi'')))) = []"
  using RemoveProject_releases_before_removal
      [of "quietEnv\<lparr>rewrite_fails := (\<lambda>n. True)\<rparr>" "blockText 7 ''/data/vol1'' ''5Gi''" 7
          "mkState {7} (blockText 7 ''/data/vol1'' ''5Gi'')"]
    RemoveProject_releases_before_removal
      [of quietEnv "blockText 7 ''/data/vol1'' ''5Gi''" 7
          "mkState {7} (blockText 7 ''/data/vol1'' ''5Gi'')"]
  by (simp add: eval_defs)

subsection \<open>The loop of restoreQuotas\<close>

lemma SetQuota_effects:
  "setQuotaCalls (snd (SetQuota E i d b s)) = setQuotaCalls s @ [(i, d, b)]"
  "projectIds (snd (SetQuota E i d b s)) = projectIds s"
  "contents (snd (SetQuota E i d b s)) = contents s"
  by (simp_all add: SetQuota_def xfs_quota_def tick_def Let_def)

lemma RemoveProject_effects:
  "setQuotaCalls (snd (RemoveProject E blk i s)) = setQuotaCalls s"
  "execs (snd (RemoveProject E blk i s)) = execs s"
  "projectIds (snd (RemoveProject E blk i s)) = projectIds s - {i}"
  "contents (snd (RemoveProject E blk i s)) =
     (if rewrite_fails E (clock s) then contents s else removeText blk (contents s))"
  by (simp_all add: RemoveProject_def removeFromFile_def deleteId_def tick_def Let_def)

lemma restoreLoop_stale:
  "notExist E (m_dir m) \<Longrightarrow>
   restoreLoop E (m # ms) s = restoreLoop E ms (snd (RemoveProject E (m_block m) (tagOf m) s))"
  by (simp add: Let_def)

lemma restoreLoop_live:
  "\<not> notExist E (m_dir m) \<Longrightarrow>
   restoreLoop E (m # ms) s =
     (case SetQuota E (tagOf m) (m_dir m) (m_bhard m) s of
        (Some e, s') \<Rightarrow> (Some (ErrRestoreQuota (m_dir m) e), s')
      | (None, s') \<Rightarrow> restoreLoop E ms s')"
  by (simp add: Let_def)

lemma restoreLoop_append:
  "restoreLoop E (pre @ post) s =
     (case restoreLoop E pre s of (None, s1) \<Rightarrow> restoreLoop E post s1 | (Some e, s1) \<Rightarrow> (Some e, s1))"
proof (induction pre arbitrary: s)
  case Nil
  show ?case by simp
next
  case (Cons m pre)
  show ?case
  proof (cases "notExist E (m_dir m)")
    case True
    then show ?thesis using Cons.IH by (simp add: Let_def)
  next
    case False
    then show ?thesis using Cons.IH
      by (simp add: Let_def split: prod.splits option.splits)
  qed
qed

lemma restoreLoop_calls_success:
  "restoreLoop E ms s = (None, s') \<Longrightarrow>
   setQuotaCalls s' = setQuotaCalls s @ map callOf (filter (\<lambda>m. \<not> notExist E (m_dir m)) ms)"
proof (induction ms arbitrary: s)
  case Nil
  then show ?case by simp
next
  case (Cons m ms)
  show ?case
  proof (cases "notExist E (m_dir m)")
    case True
    with Cons.prems have "restoreLoop E ms (snd (RemoveProject E (m_block m) (tagOf m) s)) = (None, s')"
      by (simp add: restoreLoop_stale)
    from Cons.IH [OF this] True show ?thesis by (simp add: RemoveProject_effects)
  next
    case False
    obtain r s1 where sq: "SetQuota E (tagOf m) (m_dir m) (m_bhard m) s = (r, s1)" by force
    with Cons.prems False have r: "r = None" and rest: "restoreLoop E ms s1 = (None, s')"
      by (auto simp: restoreLoop_live split: option.splits)
    have "setQuotaCalls s1 = setQuotaCalls s @ [callOf m]"
      using SetQuota_effects(1) [of E "tagOf m" "m_dir m" "m_bhard m" s] sq by (simp add: callOf_def)
    with Cons.IH [OF rest] False show ?thesis by simp
  qed
qed

lemma restoreLoop_failure:
  "restoreLoop E ms s = (Some e, s') \<Longrightarrow>
   \<exists>pre m post s1 e'. ms = pre @ m # post \<and> \<not> notExist E (m_dir m) \<and>
      restoreLoop E pre s = (None, s1) \<and>
      SetQuota E (tagOf m) (m_dir m) (m_bhard m) s1 = (Some e', s') \<and>
      e = ErrRestoreQuota (m_dir m) e'"
proof (induction ms arbitrary: s)
  case Nil
  then show ?case by simp
next
  case (Cons m ms)
  show ?case
  proof (cases "notExist E (m_dir m)")
    case True
    with Cons.prems have "restoreLoop E ms (snd (RemoveProject E (m_block m) (tagOf m) s)) = (Some e, s')"
      by (simp add: restoreLoop_stale)
    from Cons.IH [OF this] obtain pre m' post s1 e' where
      d: "ms = pre @ m' # post" "\<not> notExist E (m_dir m')"
         "restoreLoop E pre (snd (RemoveProject E (m_block m) (tagOf m) s)) = (None, s1)"
         "SetQuota E (tagOf m') (m_dir m') (m_bhard m') s1 = (Some e', s')"
         "e = ErrRestoreQuota (m_dir m') e'"
      by blast
    have "m # ms = (m # pre) @ m' # post" using d(1) by simp
    moreover have "restoreLoop E (m # pre) s = (None, s1)" using True d(3) by (simp add: restoreLoop_stale)
    ultimately show ?thesis using d(2,4,5) by blast
  next
    case False
    obtain r s1 where sq: "SetQuota E (tagOf m) (m_dir m) (m_bhard m) s = (r, s1)" by force
    show ?thesis
    proof (cases r)
      case None
      with Cons.prems False sq have "restoreLoop E ms s1 = (Some e, s')"
        by (simp add: restoreLoop_live)
      from Cons.IH [OF this] obtain pre m' post s2 e' where
        d: "ms = pre @ m' # post" "\<not> notExist E (m_dir m')"
           "restoreLoop E pre s1 = (None, s2)"
           "SetQuota E (tagOf m') (m_dir m') (m_bhard m') s2 = (Some e', s')"
           "e = ErrRestoreQuota (m_dir m') e'"
        by blast
      have "m # ms = (m # pre) @ m' # post" using d(1) by simp
      moreover have "restoreLoop E (m # pre) s = (None, s2)"
        using False sq None d(3) by (simp add: restoreLoop_live)
      ultimately show ?thesis using d(2,4,5) by blast
    next
      case (Some e')
      with Cons.prems False sq have "e = ErrRestoreQuota (m_dir m) e'" "s' = s1"
        by (simp_all add: restoreLoop_live)
      moreover have "m # ms = [] @ m # ms" "restoreLoop E [] s = (None, s)" by simp_all
      ultimately show ?thesis using False sq Some by blast
    qed
  qed
qed




lemma restoreLoop_calls_live:
  assumes "restoreLoop E ms s = (r, s')"
  shows "\<exists>cs. setQuotaCalls s' = setQuotaCalls s @ cs \<and> (\<forall>c \<in> set cs. \<not> notExist E (fst (snd c)))"
proof (cases r)
  case None
  with assms have "setQuotaCalls s' =
      setQuotaCalls s @ map callOf (filter (\<lambda>m. \<not> notExist E (m_dir m)) ms)"
    by (simp add: restoreLoop_calls_success)
  moreover have "\<forall>c \<in> set (map callOf (filter (\<lambda>m. \<not> notExist E (m_dir m)) ms)).
      \<not> notExist E (fst (snd c))"
    by (auto simp: callOf_def)
  ultimately show ?thesis by blast
next
  case (Some e)
  with assms obtain pre m post s1 e' where
    d: "ms = pre @ m # post" "\<not> notExist E (m_dir m)" "restoreLoop E pre s = (None, s1)"
       "SetQuota E (tagOf m) (m_dir m) (m_bhard m) s1 = (Some e', s')"
    using restoreLoop_failure [of E ms s e s'] by blast
  have "setQuotaCalls s1 =
      setQuotaCalls s @ map callOf (filter (\<lambda>m. \<not> notExist E (m_dir m)) pre)"
    using d(3) by (rule restoreLoop_calls_success)
  moreover have "setQuotaCalls s' = setQuotaCalls s1 @ [callOf m]"
    using SetQuota_effects(1) [of E "tagOf m" "m_dir m" "m_bhard m" s1] d(4) by (simp add: callOf_def)
  ultimately have "setQuotaCalls s' =
      setQuotaCalls s @ (map callOf (filter (\<lambda>m. \<not> notExist E (m_dir m)) pre) @ [callOf m])"
    by simp
  moreover have "\<forall>c \<in> set (map callOf (filter (\<lambda>m. \<not> notExist E (m_dir m)) pre) @ [callOf m]).
      \<not> notExist E (fst (snd c))"
    using d(2) by (auto simp: callOf_def)
  ultimately show ?thesis by blast
qed


lemma tick_fields:
  "setQuotaCalls (tick s) = setQuotaCalls s" "projectIds (tick s) = projectIds s"
  "contents (tick s) = contents s" "execs (tick s) = execs s"
  by (simp_all add: tick_def)

lemmas run_defs = eval_defs parse_defs restoreQuotas_def SetQuota_def RemoveProject_def callOf_def
  seedState_def initState_def getExistingIds_def newXfsQuotaer_def goodProbe_def

subsection \<open>Records whose directory exists\<close>



subsection \<open>Records whose directory does not exist\<close>

text \<open>
  C3 (as amended). When \<^verbatim>\<open>restoreQuotas\<close> comes to a record whose directory does not
  exist, it calls \<^verbatim>\<open>RemoveProject\<close> with the text and the id of the record and goes on
  with the records behind it, whatever that call returns. The id is released; the
  file loses every occurrence of the text when the removal succeeds and is unchanged
  when it fails; no process is started; and no call of \<^verbatim>\<open>SetQuota\<close> that the restore
  makes has a directory that does not exist.
\<close>

theorem restore_removes_stale:
  assumes "findAllSubmatch (contents s) = pre @ m # post" and "\<not> read_fails E (clock s)"
    and "restoreLoop E pre (tick s) = (None, s1)" and "notExist E (m_dir m)"
  shows "restoreQuotas E s = restoreLoop E post (snd (RemoveProject E (m_block m) (tagOf m) s1)) \<and>
     projectIds (snd (RemoveProject E (m_block m) (tagOf m) s1)) = projectIds s1 - {tagOf m} \<and>
     contents (snd (RemoveProject E (m_block m) (tagOf m) s1)) =
       (if rewrite_fails E (clock s1) then contents s1 else removeText (m_block m) (contents s1)) \<and>
     setQuotaCalls (snd (RemoveProject E (m_block m) (tagOf m) s1)) = setQuotaCalls s1 \<and>
     execs (snd (RemoveProject E (m_block m) (tagOf m) s1)) = execs s1 \<and>
     (\<forall>c \<in> set (drop (length (setQuotaCalls s)) (setQuotaCalls (snd (restoreQuotas E s)))).
        \<not> notExist E (fst (snd c)))"
proof -
  have "restoreQuotas E s = restoreLoop E (pre @ m # post) (tick s)"
    using assms(1,2) by (simp add: restoreQuotas_def)
  also have "\<dots> = restoreLoop E (m # post) s1"
    using assms(3) by (simp add: restoreLoop_append)
  also have "\<dots> = restoreLoop E post (snd (RemoveProject E (m_block m) (tagOf m) s1))"
    using assms(4) by (rule restoreLoop_stale)
  finally have step: "restoreQuotas E s =
      restoreLoop E post (snd (RemoveProject E (m_block m) (tagOf m) s1))" .
  obtain r s' where rs: "restoreLoop E (findAllSubmatch (contents s)) (tick s) = (r, s')" by force
  then obtain cs where cs: "setQuotaCalls s' = setQuotaCalls s @ cs"
      "\<forall>c \<in> set cs. \<not> notExist E (fst (snd c))"
    using restoreLoop_calls_live [of E "findAllSubmatch (contents s)" "tick s" r s']
    by (auto simp: tick_fields)
  have "snd (restoreQuotas E s) = s'" using rs assms(2) by (simp add: restoreQuotas_def)
  with cs have "\<forall>c \<in> set (drop (length (setQuotaCalls s)) (setQuotaCalls (snd (restoreQuotas E s)))).
        \<not> notExist E (fst (snd c))" by simp
  with step show ?thesis by (simp add: RemoveProject_effects)
qed

theorem restore_removes_stale_witness:
  "findAllSubmatch (contents (mkState {7} (NL # ''7:/data/vol1:5Gi'' @ [NL]))) =
     [] @ \<lparr>m_block = NL # ''7:/data/vol1:5Gi'' @ [NL], m_digits = ''7'', m_dir = ''/data/vol1'',
           m_bhard = ''5Gi''\<rparr> # [] \<and>
   notExist (quietEnv\<lparr>notExist := (\<lambda>d. True)\<rparr>) ''/data/vol1'' \<and>
   fst (restoreQuotas (quietEnv\<lparr>notExist := (\<lambda>d. True)\<rparr>)
     (mkState {7} (NL # ''7:/data/vol1:5Gi'' @ [NL]))) = None \<and>
   projectIds (snd (restoreQuotas (quietEnv\<lparr>notExist := (\<lambda>d. True)\<rparr>)
     (mkState {7} (NL # ''7:/data/vol1:5Gi'' @ [NL])))) = {} \<and>
   contents (snd (restoreQuotas (quietEnv\<lparr>notExist := (\<lambda>d. True)\<rparr>)
     (mkState {7} (NL # ''7:/data/vol1:5Gi'' @ [NL])))) = [] \<and>
   setQuotaCalls (snd (restoreQuotas (quietEnv\<lparr>notExist := (\<lambda>d. True)\<rparr>)
     (mkState {7} (NL # ''7:/data/vol1:5Gi'' @ [NL])))) = []"
proof -
  let ?s = "mkState {7} (NL # ''7:/data/vol1:5Gi'' @ [NL])"
  let ?E = "quietEnv\<lparr>notExist := (\<lambda>d. True)\<rparr>"
  let ?m = "\<lparr>m_block = NL # ''7:/data/vol1:5Gi'' @ [NL], m_digits = ''7'', m_dir = ''/data/vol1'',
           m_bhard = ''5Gi''\<rparr>"
  have f: "findAllSubmatch (contents ?s) = [] @ ?m # []"
    by (simp add: mkState_def parse_defs)
  have ok: "\<not> read_fails ?E (clock ?s)" and pre: "restoreLoop ?E [] (tick ?s) = (None, tick ?s)"
    and gone: "notExist ?E (m_dir ?m)"
    by (simp_all add: quietEnv_def mkState_def)
  have "restoreQuotas ?E ?s = restoreLoop ?E [] (snd (RemoveProject ?E (m_block ?m) (tagOf ?m) (tick ?s)))"
    using restore_removes_stale [OF f ok pre gone] by blast
  then have "restoreQuotas ?E ?s = (None, snd (RemoveProject ?E (m_block ?m) (tagOf ?m) (tick ?s)))"
    by simp
  then have "fst (restoreQuotas ?E ?s) = None"
    and "projectIds (snd (restoreQuotas ?E ?s)) = {}"
    and "contents (snd (restoreQuotas ?E ?s)) = []"
    and "setQuotaCalls (snd (restoreQuotas ?E ?s)) = []"
    by (simp_all add: eval_defs parse_defs RemoveProject_def)
  with f gone show ?thesis by simp
qed

text \<open>
  The directory of the only record does not exist and the removal from the file
  fails: the restore succeeds, and the block of the record is still in the file.
\<close>

theorem restore_removes_stale_counterexample:
  "notExist (quietEnv\<lparr>notExist := (\<lambda>d. True), rewrite_fails := (\<lambda>n. True)\<rparr>) ''/data/vol1'' \<and>
   fst (restoreQuotas (quietEnv\<lparr>notExist := (\<lambda>d. True), rewrite_fails := (\<lambda>n. True)\<rparr>)
     (mkState {7} (NL # ''7:/data/vol1:5Gi'' @ [NL]))) = None \<and>
   contents (snd (restoreQuotas (quietEnv\<lparr>notExist := (\<lambda>d. True), rewrite_fails := (\<lambda>n. True)\<rparr>)
     (mkState {7} (NL # ''7:/data/vol1:5Gi'' @ [NL])))) = NL # ''7:/data/vol1:5Gi'' @ [NL]"
  by (simp add: run_defs)

subsection \<open>The allocated ids during the restore\<close>







subsection \<open>Files made of blocks\<close>

lemma render_line: "render e = NL # entryLine e @ [NL]"
  by (cases e) (simp add: blockText_def entryLine_def)

lemma entryLine_clean:
  "NL \<notin> set (fst (snd e)) \<Longrightarrow> NL \<notin> set (snd (snd e)) \<Longrightarrow> NL \<notin> set (entryLine e)"
  using formatUint_no_NL by (simp add: entryLine_def)

lemma entryLine_not_Nil: "entryLine e \<noteq> []"
  by (simp add: entryLine_def)

lemma entryLine_digits: "takeWhile isDigit (entryLine e) = formatUint (unat (fst e))"
  using formatUint_digits [of "unat (fst e)"] by (simp add: entryLine_def colon_not_digit)

lemma entryLine_tag: "entryLine e = entryLine e' \<Longrightarrow> fst e = fst e'"
proof -
  assume "entryLine e = entryLine e'"
  then have "formatUint (unat (fst e)) = formatUint (unat (fst e'))"
    by (metis entryLine_digits)
  then have "unat (fst e) = unat (fst e')" by (metis decimal_formatUint)
  then show ?thesis by (simp add: word_unat_eq_iff)
qed

lemma prefix_line:
  "NL \<notin> set l' \<Longrightarrow> NL \<notin> set l \<Longrightarrow> prefix (l' @ [NL]) (l @ NL # r) \<Longrightarrow> l' = l"
proof (induction l' arbitrary: l)
  case Nil
  then show ?case by (cases l) auto
next
  case (Cons a l')
  then show ?case by (cases l) auto
qed

lemma no_prefix_at_end:
  "l' \<noteq> [] \<Longrightarrow> NL \<notin> set l' \<Longrightarrow> blockStart r \<Longrightarrow> \<not> prefix (NL # l' @ [NL]) (NL # r)"
  by (cases r; cases l') (auto simp: blockStart_def)

lemma removeText_skip_clean:
  "NL \<notin> set l \<Longrightarrow> removeText (NL # l') (l @ x) = l @ removeText (NL # l') x"
  by (induction l) auto

lemma removeText_block:
  assumes "NL \<notin> set l" "NL \<notin> set l'" "l' \<noteq> []" "blockStart r"
  shows "removeText (NL # l' @ [NL]) (NL # l @ NL # r) =
           (if l = l' then removeText (NL # l' @ [NL]) r
            else NL # l @ NL # removeText (NL # l' @ [NL]) r)"
proof (cases "l = l'")
  case True
  have "prefix (NL # l' @ [NL]) (NL # l' @ NL # r)" by simp
  moreover have "drop (length (NL # l' @ [NL])) (NL # l' @ NL # r) = r" by simp
  ultimately show ?thesis using True by (simp del: drop_Suc_Cons)
next
  case False
  have "\<not> prefix (NL # l' @ [NL]) (NL # l @ NL # r)"
    using prefix_line [OF assms(2,1)] False by auto
  then have "removeText (NL # l' @ [NL]) (NL # l @ NL # r) =
      NL # removeText (NL # l' @ [NL]) (l @ NL # r)" by simp
  also have "\<dots> = NL # l @ removeText (NL # l' @ [NL]) (NL # r)"
    using removeText_skip_clean [OF assms(1), of "l' @ [NL]" "NL # r"] by simp
  also have "removeText (NL # l' @ [NL]) (NL # r) = NL # removeText (NL # l' @ [NL]) r"
    using no_prefix_at_end [OF assms(3,2,4)] by simp
  finally show ?thesis using False by simp
qed

lemma containsStr_skip_clean:
  "NL \<notin> set l \<Longrightarrow> containsStr (NL # l') (l @ x) = containsStr (NL # l') x"
  by (induction l) auto

lemma containsStr_block:
  assumes "NL \<notin> set l" "NL \<notin> set l'" "l' \<noteq> []" "blockStart r"
    and "containsStr (NL # l' @ [NL]) (NL # l @ NL # r)"
  shows "l = l' \<or> containsStr (NL # l' @ [NL]) r"
proof (cases "l = l'")
  case True
  then show ?thesis by simp
next
  case False
  have "\<not> prefix (NL # l' @ [NL]) (NL # l @ NL # r)"
    using prefix_line [OF assms(2,1)] False by auto
  with assms(5) have "containsStr (NL # l' @ [NL]) (l @ NL # r)" by simp
  then have "containsStr (NL # l' @ [NL]) (NL # r)"
    using containsStr_skip_clean [OF assms(1), of "l' @ [NL]" "NL # r"] by simp
  then have "containsStr (NL # l' @ [NL]) r"
    using no_prefix_at_end [OF assms(3,2,4)] by simp
  then show ?thesis by simp
qed

lemma cleanEntries_Cons:
  "cleanEntries (e # es) = (NL \<notin> set (fst (snd e)) \<and> NL \<notin> set (snd (snd e)) \<and> cleanEntries es)"
  by (cases e) (auto simp: cleanEntries_def)

lemma blockStart_concat: "blockStart (concat (map render es))"
  by (cases es) (auto simp: blockStart_def render_line)

lemma removeText_entries:
  assumes "cleanEntries es" "NL \<notin> set l'" "l' \<noteq> []"
  shows "removeText (NL # l' @ [NL]) (concat (map render es)) =
         concat (map render (filter (\<lambda>e. entryLine e \<noteq> l') es))"
  using assms(1)
proof (induction es)
  case Nil
  show ?case by simp
next
  case (Cons e es)
  then have cl: "NL \<notin> set (entryLine e)" and ces: "cleanEntries es"
    by (simp_all add: cleanEntries_Cons entryLine_clean)
  have "removeText (NL # l' @ [NL]) (NL # entryLine e @ NL # concat (map render es)) =
      (if entryLine e = l' then removeText (NL # l' @ [NL]) (concat (map render es))
       else NL # entryLine e @ NL # removeText (NL # l' @ [NL]) (concat (map render es)))"
    by (rule removeText_block [OF cl assms(2,3) blockStart_concat])
  then show ?case using Cons.IH [OF ces] by (simp add: render_line [of e] del: removeText.simps)
qed

lemma containsStr_entries:
  assumes "cleanEntries es" "NL \<notin> set l'" "l' \<noteq> []"
    and "containsStr (NL # l' @ [NL]) (concat (map render es))"
  shows "\<exists>e \<in> set es. entryLine e = l'"
  using assms(1,4)
proof (induction es)
  case Nil
  then show ?case by simp
next
  case (Cons e es)
  then have cl: "NL \<notin> set (entryLine e)" and ces: "cleanEntries es"
    by (simp_all add: cleanEntries_Cons entryLine_clean)
  have "containsStr (NL # l' @ [NL]) (NL # entryLine e @ NL # concat (map render es))"
    using Cons.prems(2) by (simp add: render_line [of e] del: containsStr.simps)
  from containsStr_block [OF cl assms(2,3) blockStart_concat this]
  show ?case using Cons.IH [OF ces] by (auto simp del: containsStr.simps)
qed

lemma tag_roundtrip: "of_nat (fst (parseUint16 (formatUint (unat (i :: 16 word))))) = i"
proof -
  have "unat i \<le> 65535" using unsigned_less [of i, where 'a=nat] by simp
  then show ?thesis by (simp add: parseUint16_def decimal_formatUint)
qed

lemma matchLine_digits: "matchLine l = Some (ds, d, b) \<Longrightarrow> ds = takeWhile isDigit l"
  by (auto simp: matchLine_def Let_def split: if_splits list.splits option.splits)

lemma findAll_skip_clean:
  "NL \<notin> set l \<Longrightarrow> findAllSubmatch (l @ x) = findAllSubmatch x"
  by (induction l) auto

lemma findAll_at_blockStart:
  "blockStart r \<Longrightarrow> findAllSubmatch (NL # r) = findAllSubmatch r"
  by (cases r) (auto simp: blockStart_def matchLine_def)

lemma findAll_block:
  assumes "NL \<notin> set l" "blockStart r"
  shows "findAllSubmatch (NL # l @ NL # r) =
     (case matchLine l of
        None \<Rightarrow> findAllSubmatch r
      | Some (ds, d, b) \<Rightarrow>
          \<lparr>m_block = NL # l @ [NL], m_digits = ds, m_dir = d, m_bhard = b\<rparr> # findAllSubmatch r)"
proof (cases "matchLine l")
  case None
  then have "findAllSubmatch (NL # l @ NL # r) = findAllSubmatch (l @ NL # r)"
    using assms(1) by (simp add: takeWhile_line dropWhile_line)
  also have "\<dots> = findAllSubmatch r"
    using assms by (simp add: findAll_skip_clean findAll_at_blockStart del: findAllSubmatch.simps)
  finally show ?thesis using None by simp
next
  case (Some t)
  obtain ds d b where t: "t = (ds, d, b)" by (cases t)
  show ?thesis using Some t findAll_line_block [OF assms(1), of ds d b r] by simp
qed

lemma findAll_entries:
  assumes "cleanEntries es"
  shows "\<forall>m \<in> set (findAllSubmatch (concat (map render es))).
           \<exists>e \<in> set es. m_block m = render e \<and> tagOf m = fst e"
  using assms
proof (induction es)
  case Nil
  show ?case by simp
next
  case (Cons e es)
  then have cl: "NL \<notin> set (entryLine e)" and ces: "cleanEntries es"
    by (simp_all add: cleanEntries_Cons entryLine_clean)
  let ?r = "concat (map render es)"
  have eq: "concat (map render (e # es)) = NL # entryLine e @ NL # ?r"
    by (simp add: render_line [of e])
  have fb: "findAllSubmatch (NL # entryLine e @ NL # ?r) =
     (case matchLine (entryLine e) of
        None \<Rightarrow> findAllSubmatch ?r
      | Some (ds, d, b) \<Rightarrow>
          \<lparr>m_block = NL # entryLine e @ [NL], m_digits = ds, m_dir = d, m_bhard = b\<rparr>
          # findAllSubmatch ?r)"
    by (rule findAll_block [OF cl blockStart_concat])
  show ?case
  proof (cases "matchLine (entryLine e)")
    case None
    with fb eq Cons.IH [OF ces] show ?thesis by (simp del: findAllSubmatch.simps)
  next
    case (Some t)
    obtain ds d b where t: "t = (ds, d, b)" by (cases t)
    have "ds = formatUint (unat (fst e))"
      using Some t matchLine_digits [of "entryLine e" ds d b] by (simp add: entryLine_digits)
    then have "tagOf \<lparr>m_block = NL # entryLine e @ [NL], m_digits = ds, m_dir = d, m_bhard = b\<rparr> = fst e"
      by (simp add: tagOf_def tag_roundtrip)
    with fb eq Some t Cons.IH [OF ces] show ?thesis
      by (auto simp: render_line [of e] simp del: findAllSubmatch.simps)
  qed
qed

lemma consistent_same:
  "contents s' = contents s \<Longrightarrow> projectIds s' = projectIds s \<Longrightarrow> consistent es s \<Longrightarrow> consistent es s'"
  by (simp add: consistent_def)

lemma consistent_clean: "consistent es s \<Longrightarrow> cleanEntries es"
  by (simp add: consistent_def cleanEntries_def)

lemma consistent_tags:
  assumes "consistent es s"
  shows "tagOf ` set (findAllSubmatch (contents s)) \<subseteq> projectIds s"
proof -
  have "contents s = concat (map render es)" "fst ` set es \<subseteq> projectIds s"
    using assms by (simp_all add: consistent_def)
  show ?thesis
  proof
    fix x assume "x \<in> tagOf ` set (findAllSubmatch (contents s))"
    then obtain m where m: "m \<in> set (findAllSubmatch (concat (map render es)))" "x = tagOf m"
      using \<open>contents s = concat (map render es)\<close> by auto
    then obtain e where "e \<in> set es" "tagOf m = fst e"
      using findAll_entries [OF consistent_clean [OF assms]] by blast
    then have "x \<in> fst ` set es" using m(2) by simp
    then show "x \<in> projectIds s" using \<open>fst ` set es \<subseteq> projectIds s\<close> by blast
  qed
qed

lemma blockText_line: "blockText i d b = NL # entryLine (i, d, b) @ [NL]"
  using render_line [of "(i, d, b)"] by simp

lemma RemoveProject_consistent:
  assumes "consistent es s" "NL \<notin> set d" "NL \<notin> set b" "\<not> rewrite_fails E (clock s)"
    and "(\<exists>e \<in> set es. entryLine e = entryLine (i, d, b)) \<or> i \<notin> fst ` set es"
  shows "consistent (filter (\<lambda>e. fst e \<noteq> i) es) (snd (RemoveProject E (blockText i d b) i s))"
proof -
  let ?l = "entryLine (i, d, b)"
  have cl: "NL \<notin> set ?l" using assms(2,3) by (simp add: entryLine_clean)
  have dist: "distinct (map fst es)" using assms(1) by (simp add: consistent_def)
  have same: "\<forall>e \<in> set es. (entryLine e \<noteq> ?l) = (fst e \<noteq> i)"
  proof
    fix e assume e: "e \<in> set es"
    show "(entryLine e \<noteq> ?l) = (fst e \<noteq> i)"
    proof (cases "entryLine e = ?l")
      case True
      then show ?thesis using entryLine_tag [of e "(i, d, b)"] by simp
    next
      case False
      have "fst e \<noteq> i"
      proof
        assume fe: "fst e = i"
        then have "i \<in> fst ` set es" using e by force
        with assms(5) obtain e0 where e0: "e0 \<in> set es" "entryLine e0 = ?l" by blast
        then have "fst e0 = i" using entryLine_tag [of e0 "(i, d, b)"] by simp
        moreover have "inj_on fst (set es)" using dist by (simp add: distinct_map)
        ultimately have "e = e0" using fe e e0(1) by (simp add: inj_on_def)
        with e0(2) False show False by simp
      qed
      with False show ?thesis by simp
    qed
  qed
  then have filt: "filter (\<lambda>e. entryLine e \<noteq> ?l) es = filter (\<lambda>e. fst e \<noteq> i) es"
    by (intro filter_cong) auto
  have "removeText (NL # ?l @ [NL]) (concat (map render es)) =
      concat (map render (filter (\<lambda>e. entryLine e \<noteq> ?l) es))"
    by (rule removeText_entries [OF consistent_clean [OF assms(1)] cl entryLine_not_Nil])
  with filt have rem: "removeText (blockText i d b) (contents s) =
      concat (map render (filter (\<lambda>e. fst e \<noteq> i) es))"
    using assms(1) by (simp add: blockText_line consistent_def)
  have c: "contents (snd (RemoveProject E (blockText i d b) i s)) =
      concat (map render (filter (\<lambda>e. fst e \<noteq> i) es))"
    using rem assms(4) by (simp add: RemoveProject_effects)
  have p: "projectIds (snd (RemoveProject E (blockText i d b) i s)) = projectIds s - {i}"
    by (simp add: RemoveProject_effects)
  have "fst ` set (filter (\<lambda>e. fst e \<noteq> i) es) \<subseteq> projectIds s - {i}"
    using assms(1) by (auto simp: consistent_def)
  moreover have "distinct (map fst (filter (\<lambda>e. fst e \<noteq> i) es))"
    using dist by (simp add: distinct_map_filter)
  moreover have "\<forall>(i, d, b) \<in> set (filter (\<lambda>e. fst e \<noteq> i) es). NL \<notin> set d \<and> NL \<notin> set b"
    using assms(1) by (auto simp: consistent_def)
  ultimately show ?thesis using c p unfolding consistent_def by simp
qed

subsection \<open>Sequences of operations keep the file and the allocated set consistent\<close>

lemma tracked_filter:
  assumes "tracked m es"
  shows "tracked m (filter (\<lambda>e. fst e \<noteq> i) es)"
proof -
  from assms obtain d b where h: "NL \<notin> set d" "NL \<notin> set b" "m_block m = blockText (tagOf m) d b"
    "(\<exists>e \<in> set es. entryLine e = entryLine (tagOf m, d, b)) \<or> tagOf m \<notin> fst ` set es"
    unfolding tracked_def by blast
  have "(\<exists>e \<in> set (filter (\<lambda>e. fst e \<noteq> i) es). entryLine e = entryLine (tagOf m, d, b)) \<or>
        tagOf m \<notin> fst ` set (filter (\<lambda>e. fst e \<noteq> i) es)"
  proof (cases "tagOf m = i")
    case True
    then show ?thesis by auto
  next
    case False
    from h(4) show ?thesis
    proof
      assume "\<exists>e \<in> set es. entryLine e = entryLine (tagOf m, d, b)"
      then obtain e where e: "e \<in> set es" "entryLine e = entryLine (tagOf m, d, b)" by blast
      then have "fst e = tagOf m" using entryLine_tag [of e "(tagOf m, d, b)"] by simp
      with False e(1) have "e \<in> set (filter (\<lambda>e. fst e \<noteq> i) es)" by simp
      with e(2) show ?thesis by blast
    next
      assume "tagOf m \<notin> fst ` set es"
      then show ?thesis by auto
    qed
  qed
  with h(1,2,3) show ?thesis unfolding tracked_def by blast
qed

lemma tracked_initial:
  assumes "cleanEntries es"
  shows "\<forall>m \<in> set (findAllSubmatch (concat (map render es))). tracked m es"
proof
  fix m assume "m \<in> set (findAllSubmatch (concat (map render es)))"
  then obtain e where e: "e \<in> set es" "m_block m = render e" "tagOf m = fst e"
    using findAll_entries [OF assms] by blast
  obtain i d b where t: "e = (i, d, b)" by (cases e)
  have "NL \<notin> set d" "NL \<notin> set b" using assms e(1) t by (auto simp: cleanEntries_def)
  moreover have "m_block m = blockText (tagOf m) d b" using e(2,3) t by simp
  moreover have "\<exists>e \<in> set es. entryLine e = entryLine (tagOf m, d, b)" using e(1,3) t by auto
  ultimately show "tracked m es" unfolding tracked_def by blast
qed

lemma RemoveProject_tracked_consistent:
  assumes "consistent es s" "tracked m es" "\<not> rewrite_fails E (clock s)"
  shows "consistent (filter (\<lambda>e. fst e \<noteq> tagOf m) es)
           (snd (RemoveProject E (m_block m) (tagOf m) s))"
proof -
  from assms(2) obtain d b where h: "NL \<notin> set d" "NL \<notin> set b" "m_block m = blockText (tagOf m) d b"
    "(\<exists>e \<in> set es. entryLine e = entryLine (tagOf m, d, b)) \<or> tagOf m \<notin> fst ` set es"
    unfolding tracked_def by blast
  show ?thesis
    using RemoveProject_consistent [OF assms(1) h(1,2) assms(3) h(4)] h(3) by simp
qed

lemma restoreLoop_consistent:
  assumes "\<forall>n. \<not> rewrite_fails E n"
  shows "consistent es s \<Longrightarrow> \<forall>m \<in> set ms. tracked m es \<Longrightarrow>
         \<exists>es'. consistent es' (snd (restoreLoop E ms s))"
proof (induction ms arbitrary: es s)
  case Nil
  then show ?case by auto
next
  case (Cons m ms)
  show ?case
  proof (cases "notExist E (m_dir m)")
    case True
    let ?s = "snd (RemoveProject E (m_block m) (tagOf m) s)"
    let ?es = "filter (\<lambda>e. fst e \<noteq> tagOf m) es"
    have "consistent ?es ?s"
      using Cons.prems assms by (intro RemoveProject_tracked_consistent) auto
    moreover have "\<forall>m' \<in> set ms. tracked m' ?es"
      using Cons.prems(2) by (auto intro: tracked_filter)
    ultimately have "\<exists>es'. consistent es' (snd (restoreLoop E ms ?s))"
      by (rule Cons.IH)
    then show ?thesis using True by (simp add: restoreLoop_stale)
  next
    case False
    obtain r s1 where sq: "SetQuota E (tagOf m) (m_dir m) (m_bhard m) s = (r, s1)" by force
    have "contents s1 = contents s" "projectIds s1 = projectIds s"
      using SetQuota_effects(2,3) [of E "tagOf m" "m_dir m" "m_bhard m" s] sq by simp_all
    then have c1: "consistent es s1" using Cons.prems(1) by (rule consistent_same)
    show ?thesis
    proof (cases r)
      case None
      have "\<exists>es'. consistent es' (snd (restoreLoop E ms s1))"
        using c1 Cons.prems(2) by (intro Cons.IH) auto
      then show ?thesis using False sq None by (simp add: restoreLoop_live)
    next
      case (Some e)
      then show ?thesis using False sq c1 by (auto simp: restoreLoop_live)
    qed
  qed
qed

lemma restoreQuotas_consistent:
  assumes "\<forall>n. \<not> rewrite_fails E n" "consistent es s"
  shows "\<exists>es'. consistent es' (snd (restoreQuotas E s))"
proof (cases "read_fails E (clock s)")
  case True
  have "consistent es (tick s)" using assms(2) by (simp add: consistent_def tick_def)
  then show ?thesis using True by (auto simp: restoreQuotas_def)
next
  case False
  have c: "consistent es (tick s)" using assms(2) by (simp add: consistent_def tick_def)
  have "contents (tick s) = concat (map render es)" using c by (simp add: consistent_def)
  then have "\<forall>m \<in> set (findAllSubmatch (contents s)). tracked m es"
    using tracked_initial [OF consistent_clean [OF assms(2)]] by (simp add: tick_def)
  from restoreLoop_consistent [OF assms(1) c this] show ?thesis
    using False by (simp add: restoreQuotas_def)
qed

lemma RemoveProject_snd:
  "snd (RemoveProject E blk i s) = snd (removeFromFile E blk (deleteId i s))"
  by (simp add: RemoveProject_def split: prod.splits)

lemma AddProject_consistent:
  assumes "consistent es s" "NL \<notin> set d" "NL \<notin> set b" "\<forall>n. \<not> rewrite_fails E n"
  shows "\<exists>es'. consistent es' (snd (AddProject E d b s))"
proof (cases "generateId s")
  case None
  then show ?thesis using assms(1) by (auto simp: AddProject_def)
next
  case (Some p)
  obtain i s1 where p: "p = (i, s1)" by (cases p)
  from Some p have fresh: "i \<notin> projectIds s" and s1: "s1 = s\<lparr>projectIds := insert i (projectIds s)\<rparr>"
    by (auto dest: generateId_Some)
  have tags: "fst ` set es \<subseteq> projectIds s" and dist: "distinct (map fst es)"
    and cont: "contents s = concat (map render es)"
    and clean: "\<forall>(i, d, b) \<in> set es. NL \<notin> set d \<and> NL \<notin> set b"
    using assms(1) by (simp_all add: consistent_def)
  have notin: "i \<notin> fst ` set es" using fresh tags by blast
  show ?thesis
  proof (cases "append_fails E (clock s)")
    case True
    then have "contents (snd (AddProject E d b s)) = contents s"
      and "projectIds (snd (AddProject E d b s)) = projectIds s"
      using Some p fresh by (auto simp: AddProject_def s1 addToFile_def deleteId_def tick_def Let_def)
    then show ?thesis using assms(1) consistent_same by blast
  next
    case False
    let ?B = "blockText i d b"
    let ?s3 = "tick ((tick (s1\<lparr>contents := contents s1 @ ?B\<rparr>))
        \<lparr>execs := execs s1 @ [[''xfs_quota'', ''-x'', ''-c'',
            ''project -s -p '' @ d @ '' '' @ formatUint (unat i), xfsPath s1]]\<rparr>)"
    have c3: "consistent (es @ [(i, d, b)]) ?s3"
      using tags dist cont clean notin assms(2,3)
      by (auto simp: consistent_def s1 tick_def)
    show ?thesis
    proof (cases "exec_fails E (Suc (clock s))")
      case ef: True
      have res: "snd (AddProject E d b s) = snd (RemoveProject E ?B i ?s3)"
        using Some p False ef
        by (simp add: AddProject_def s1 addToFile_def xfs_quota_def tick_def Let_def RemoveProject_snd)
      have "consistent (filter (\<lambda>e. fst e \<noteq> i) (es @ [(i, d, b)])) (snd (RemoveProject E ?B i ?s3))"
        using assms(4) by (intro RemoveProject_consistent [OF c3 assms(2,3)]) auto
      with res show ?thesis by metis
    next
      case ef: False
      have "snd (AddProject E d b s) = ?s3"
        using Some p False ef
        by (simp add: AddProject_def s1 addToFile_def xfs_quota_def tick_def Let_def)
      with c3 show ?thesis by metis
    qed
  qed
qed

lemma run_consistent:
  assumes "\<forall>n. \<not> rewrite_fails E n"
  shows "consistent es s \<Longrightarrow> legal E ops s \<Longrightarrow> \<exists>es'. consistent es' (run E ops s)"
proof (induction ops arbitrary: es s)
  case Nil
  then show ?case by auto
next
  case (Cons x ops)
  have "\<exists>es'. consistent es' (step E x s)"
  proof (cases x)
    case (Add d b)
    then show ?thesis using Cons.prems assms AddProject_consistent [of es s d b E] by simp
  next
    case (Remove i d b)
    with Cons.prems(2) have h: "NL \<notin> set d" "NL \<notin> set b" "containsStr (blockText i d b) (contents s)"
      by simp_all
    have "NL \<notin> set (entryLine (i, d, b))" using h(1,2) by (simp add: entryLine_clean)
    moreover have "containsStr (NL # entryLine (i, d, b) @ [NL]) (concat (map render es))"
      using h(3) Cons.prems(1) by (simp add: blockText_line consistent_def)
    ultimately have "\<exists>e \<in> set es. entryLine e = entryLine (i, d, b)"
      using containsStr_entries [OF consistent_clean [OF Cons.prems(1)] _ entryLine_not_Nil] by blast
    then have "consistent (filter (\<lambda>e. fst e \<noteq> i) es) (snd (RemoveProject E (blockText i d b) i s))"
      using assms by (intro RemoveProject_consistent [OF Cons.prems(1) h(1,2)]) auto
    then show ?thesis using Remove by auto
  next
    case Restore
    then show ?thesis using restoreQuotas_consistent [OF assms Cons.prems(1)] by simp
  qed
  then obtain es1 where "consistent es1 (step E x s)" by blast
  moreover have "legal E ops (step E x s)" using Cons.prems(2) by simp
  ultimately show ?case using Cons.IH by simp
qed

text \<open>
  C5 (as amended). Start from a projects file made of blocks with pairwise different,
  allocated ids, and let a caller run any sequence of \<^verbatim>\<open>AddProject\<close> (directory and
  limit without newline), \<^verbatim>\<open>RemoveProject\<close> (with an id and the block text of that id,
  while that text is in the file) and \<^verbatim>\<open>restoreQuotas\<close>, on a host where no removal
  from the file fails. Then every id carried by a record of the file is allocated, and
  the id that a next \<^verbatim>\<open>AddProject\<close> hands out is carried by no record of the file.
\<close>

theorem no_reuse_while_recorded:
  assumes "consistent es s" and "\<forall>n. \<not> rewrite_fails E n" and "legal E ops s"
  shows "tagOf ` set (findAllSubmatch (contents (run E ops s))) \<subseteq> projectIds (run E ops s) \<and>
     (\<forall>d b blk i. fst (AddProject E d b (run E ops s)) = Inr (blk, i) \<longrightarrow>
        i \<notin> tagOf ` set (findAllSubmatch (contents (run E ops s))))"
proof -
  obtain es' where c: "consistent es' (run E ops s)"
    using run_consistent [OF assms(2,1,3)] by blast
  have sub: "tagOf ` set (findAllSubmatch (contents (run E ops s))) \<subseteq> projectIds (run E ops s)"
    using c by (rule consistent_tags)
  have "\<forall>d b blk i. fst (AddProject E d b (run E ops s)) = Inr (blk, i) \<longrightarrow>
        i \<notin> projectIds (run E ops s)"
    by (auto simp: AddProject_def addToFile_def xfs_quota_def Let_def
        split: option.splits prod.splits if_splits dest: generateId_Some)
  with sub show ?thesis by blast
qed

lemmas seq_defs = eval_defs parse_defs AddProject_def RemoveProject_def

theorem no_reuse_while_recorded_witness:
  "consistent [] (mkState {} []) \<and> (\<forall>n. \<not> rewrite_fails quietEnv n) \<and>
   legal quietEnv [Add ''/a'' ''5'', Add ''/b'' ''6'', Remove 1 ''/a'' ''5''] (mkState {} []) \<and>
   fst (AddProject quietEnv ''/c'' ''7''
          (run quietEnv [Add ''/a'' ''5'', Add ''/b'' ''6'', Remove 1 ''/a'' ''5''] (mkState {} []))) =
     Inr (NL # ''1:/c:7'' @ [NL], 1) \<and>
   map tagOf (findAllSubmatch (contents
          (run quietEnv [Add ''/a'' ''5'', Add ''/b'' ''6'', Remove 1 ''/a'' ''5''] (mkState {} [])))) = [2] \<and>
   1 \<notin> tagOf ` set (findAllSubmatch (contents
          (run quietEnv [Add ''/a'' ''5'', Add ''/b'' ''6'', Remove 1 ''/a'' ''5''] (mkState {} []))))"
proof -
  let ?ops = "[Add ''/a'' ''5'', Add ''/b'' ''6'', Remove 1 ''/a'' ''5'']"
  let ?s = "mkState {} []"
  have h1: "consistent [] ?s" by (simp add: consistent_def mkState_def)
  have h2: "\<forall>n. \<not> rewrite_fails quietEnv n" by (simp add: quietEnv_def)
  have h3: "legal quietEnv ?ops ?s" by (simp add: seq_defs)
  have add: "fst (AddProject quietEnv ''/c'' ''7'' (run quietEnv ?ops ?s)) = Inr (NL # ''1:/c:7'' @ [NL], 1)"
    by (simp add: seq_defs)
  have tags: "map tagOf (findAllSubmatch (contents (run quietEnv ?ops ?s))) = [2]"
    by (simp add: seq_defs)
  have "1 \<notin> tagOf ` set (findAllSubmatch (contents (run quietEnv ?ops ?s)))"
    using no_reuse_while_recorded [OF h1 h2 h3] add by blast
  with h1 h2 h3 add tags show ?thesis by blast
qed

text \<open>
  The removal from the file fails: \<^verbatim>\<open>RemoveProject\<close> returns the error with id 1
  released and the record of id 1 still in the file, and the next \<^verbatim>\<open>AddProject\<close> hands
  out id 1.
\<close>

theorem no_reuse_while_recorded_counterexample:
  "legal (quietEnv\<lparr>rewrite_fails := (\<lambda>n. True)\<rparr>) [Add ''/a'' ''5'', Remove 1 ''/a'' ''5'']
     (mkState {} []) \<and>
   fst (AddProject (quietEnv\<lparr>rewrite_fails := (\<lambda>n. True)\<rparr>) ''/b'' ''6''
          (run (quietEnv\<lparr>rewrite_fails := (\<lambda>n. True)\<rparr>) [Add ''/a'' ''5'', Remove 1 ''/a'' ''5'']
             (mkState {} []))) = Inr (NL # ''1:/b:6'' @ [NL], 1) \<and>
   map tagOf (findAllSubmatch (contents
          (run (quietEnv\<lparr>rewrite_fails := (\<lambda>n. True)\<rparr>) [Add ''/a'' ''5'', Remove 1 ''/a'' ''5'']
             (mkState {} [])))) = [1]"
  by (simp add: seq_defs)

end
